theory Spec2Isabelle
  imports Complex_Main "HOL-Library.Log_Nat"
begin

section \<open>Outcomes of a C++ call\<close>

text \<open>
  A C++ call of \<^verbatim>\<open>moonshine_cpp\<close> either returns a value, leaves through an exception,
  ends the process (\<^verbatim>\<open>std::terminate\<close>, which is what an exception reaching a
  \<^verbatim>\<open>noexcept\<close> boundary does), or has undefined behaviour (an unchecked
  \<^verbatim>\<open>operator[]\<close> or pointer read out of range).
\<close>

datatype exn =
    RuntimeError string
  | OutOfRange
  | EngineError string
  | TokenizerError string

datatype 'a outcome =
    Returned 'a
  | Thrown exn
  | Terminated
  | Undefined

fun obind :: "'a outcome \<Rightarrow> ('a \<Rightarrow> 'b outcome) \<Rightarrow> 'b outcome" where
  "obind (Returned x) f = f x"
| "obind (Thrown e) f = Thrown e"
| "obind Terminated f = Terminated"
| "obind Undefined f = Undefined"

text \<open>A function declared \<^verbatim>\<open>noexcept\<close>: an exception that would leave it calls
  \<^verbatim>\<open>std::terminate\<close> instead.\<close>

fun noexcept :: "'a outcome \<Rightarrow> 'a outcome" where
  "noexcept (Thrown e) = Terminated"
| "noexcept r = r"

section \<open>Numbers\<close>

subsection \<open>Single-precision values, as far as they are compared\<close>

text \<open>
  The code only ever compares \<^verbatim>\<open>float\<close> values (\<^verbatim>\<open>std::max_element\<close> uses
  \<^verbatim>\<open>operator<\<close>), so a value is its real number, an infinity, or NaN.
  \<open>flt\<close> is \<^verbatim>\<open>operator<\<close>: every comparison with NaN is false.
\<close>

datatype float32 = NaN | NegInf | Finite real | PosInf

fun flt :: "float32 \<Rightarrow> float32 \<Rightarrow> bool" where
  "flt NaN y = False"
| "flt x NaN = False"
| "flt NegInf NegInf = False"
| "flt NegInf y = True"
| "flt (Finite x) (Finite y) = (x < y)"
| "flt (Finite x) PosInf = True"
| "flt (Finite x) NegInf = False"
| "flt PosInf y = False"

definition is_nan :: "float32 \<Rightarrow> bool" where
  "is_nan x = (x = NaN)"

text \<open>\<open>fle x y\<close> is \<^verbatim>\<open>x <= y\<close> on values that are not NaN.\<close>

definition fle :: "float32 \<Rightarrow> float32 \<Rightarrow> bool" where
  "fle x y = (flt x y \<or> (x = y \<and> \<not> is_nan x))"

subsection \<open>Double precision: IEEE 754 binary64, round to nearest, ties to even\<close>

text \<open>
  \<^verbatim>\<open>OnnxModel::run\<close> computes the token budget in \<^verbatim>\<open>double\<close>. A finite double is
  the real number it denotes, and every arithmetic operation is the exact result rounded
  by \<open>fl64\<close> to the nearest number with a 53-bit significand (ties to the even
  significand). The exponent range is left out: the values of \<^verbatim>\<open>run\<close> lie between
  \<open>1 / 16000\<close> and \<open>6 * 2 ^ 64\<close>, far from overflow and from the subnormal numbers.
\<close>

definition pow2 :: "int \<Rightarrow> real" where
  "pow2 e = (if 0 \<le> e then 2 ^ nat e else 1 / 2 ^ nat (- e))"

text \<open>\<open>ilog2 x\<close> is the binary exponent of \<open>x \<noteq> 0\<close>: \<open>2 ^ ilog2 x \<le> \<bar>x\<bar> < 2 ^ (ilog2 x + 1)\<close>.\<close>

definition ilog2 :: "real \<Rightarrow> int" where
  "ilog2 x =
     (if 1 \<le> \<bar>x\<bar> then int (floorlog 2 (nat \<lfloor>\<bar>x\<bar>\<rfloor>)) - 1
      else - int (floorlog 2 (nat (\<lceil>1 / \<bar>x\<bar>\<rceil> - 1))))"

definition round_ties_even :: "real \<Rightarrow> int" where
  "round_ties_even x =
     (let f = \<lfloor>x\<rfloor>; d = x - of_int f in
      if d < 1 / 2 then f
      else if 1 / 2 < d then f + 1
      else if even f then f else f + 1)"

definition fl64 :: "real \<Rightarrow> real" where
  "fl64 x =
     (if x = 0 then 0
      else (let q = pow2 (ilog2 x - 52) in of_int (round_ties_even (x / q)) * q))"

definition double_of_size_t :: "nat \<Rightarrow> real" where
  "double_of_size_t n = fl64 (real n)"

definition ddiv :: "real \<Rightarrow> real \<Rightarrow> real" where
  "ddiv x y = fl64 (x / y)"

definition dmul :: "real \<Rightarrow> real \<Rightarrow> real" where
  "dmul x y = fl64 (x * y)"

text \<open>\<^verbatim>\<open>std::round\<close>: to the nearest integer, halfway cases away from zero (exact).\<close>

definition std_round :: "real \<Rightarrow> real" where
  "std_round x = (if 0 \<le> x then of_int \<lfloor>x + 1 / 2\<rfloor> else - of_int \<lfloor>- x + 1 / 2\<rfloor>)"

text \<open>The conversion of a non-negative integral double below \<open>2 ^ 64\<close> to
  \<^verbatim>\<open>size_t\<close>.\<close>

definition size_t_of_double :: "real \<Rightarrow> nat" where
  "size_t_of_double x = nat \<lfloor>x\<rfloor>"

text \<open>The implicit conversion of a \<^verbatim>\<open>ptrdiff_t\<close> to \<^verbatim>\<open>int\<close> (32 bits, two's
  complement): the value modulo \<open>2 ^ 32\<close>.\<close>

definition to_int32 :: "int \<Rightarrow> int" where
  "to_int32 k = (k + 2 ^ 31) mod 2 ^ 32 - 2 ^ 31"

section \<open>Tensors and the inference engine\<close>

text \<open>
  An \<^verbatim>\<open>Ort::Value\<close> holding a float tensor: its shape (\<^verbatim>\<open>int64_t\<close> dimensions, only
  ever compared) and its elements in row-major order.
\<close>

record tensor =
  tshape :: "int list"
  tdata :: "float32 list"

text \<open>The inputs handed to the decoder session differ in element type.\<close>

datatype ort_input =
    InInt64 "int list" "int list"
  | InFloat tensor
  | InBool "int list" "bool list"

text \<open>
  The two \<^verbatim>\<open>Ort::Session\<close>s are external. A session is what its \<^verbatim>\<open>Run\<close> does
  with the inputs: it returns the output tensors or throws. The encoder is handed the
  caller's sample buffer through a mutable pointer (\<^verbatim>\<open>audio_data.data()\<close>), so its
  \<^verbatim>\<open>Run\<close> also yields the contents of that buffer when it is done.
  \<open>decoder_input_names\<close> are the names \<^verbatim>\<open>initialize_model_io_names\<close> reads from the
  decoder graph.
\<close>

record engine =
  decoder_input_names :: "string list"
  encoder_run :: "tensor \<Rightarrow> tensor list outcome \<times> float32 list"
  decoder_run :: "ort_input list \<Rightarrow> tensor list outcome"

record onnx_model =
  num_layers :: int
  num_kv_heads :: int
  head_dim :: int
  sessions :: engine

definition start_token :: int where "start_token = 1"
definition end_token :: int where "end_token = 2"
definition sample_rate :: nat where "sample_rate = 16000"
definition max_tokens_per_second :: nat where "max_tokens_per_second = 6"
definition min_token_count :: nat where "min_token_count = 1"

text \<open>The private constructor, with the sessions already loaded, and the two factories.\<close>

definition OnnxModel :: "engine \<Rightarrow> int \<Rightarrow> int \<Rightarrow> int \<Rightarrow> onnx_model" where
  "OnnxModel eng layers kv_heads hdim =
     \<lparr>num_layers = layers, num_kv_heads = kv_heads, head_dim = hdim, sessions = eng\<rparr>"

definition OnnxModel_Base :: "engine \<Rightarrow> onnx_model" where
  "OnnxModel_Base eng = OnnxModel eng 8 8 52"

definition OnnxModel_Tiny :: "engine \<Rightarrow> onnx_model" where
  "OnnxModel_Tiny eng = OnnxModel eng 6 8 36"

section \<open>Greedy token selection\<close>

text \<open>\<^verbatim>\<open>std::max_element\<close>: a linear scan that keeps the first largest element.
  \<open>max_element_scan xs i best bi\<close> scans the rest \<open>xs\<close>, whose first element has index
  \<open>i\<close>, with the largest element so far \<open>best\<close> at index \<open>bi\<close>. On an empty range
  \<^verbatim>\<open>max_element\<close> returns \<^verbatim>\<open>last\<close>, at distance 0 from \<^verbatim>\<open>begin()\<close>.\<close>

fun max_element_scan :: "float32 list \<Rightarrow> nat \<Rightarrow> float32 \<Rightarrow> nat \<Rightarrow> nat" where
  "max_element_scan [] i best bi = bi"
| "max_element_scan (x # xs) i best bi =
     (if flt best x then max_element_scan xs (Suc i) x i
      else max_element_scan xs (Suc i) best bi)"

definition max_element :: "float32 list \<Rightarrow> nat" where
  "max_element xs = (case xs of [] \<Rightarrow> 0 | x # rest \<Rightarrow> max_element_scan rest 1 x 0)"

definition get_next_token :: "tensor \<Rightarrow> int outcome" where
  "get_next_token logits =
     (let shape = tshape logits in
      if length shape \<noteq> 3 \<or> shape ! 0 \<noteq> 1 \<or> shape ! 1 \<noteq> 1
      then Thrown (RuntimeError ''Unexpected logits shape'')
      else
        (let vocab_size = shape ! 2 in
         if vocab_size < 0 \<or> int (length (tdata logits)) < vocab_size then Undefined
         else
           (let logit_vec = take (nat vocab_size) (tdata logits) in
            Returned (to_int32 (int (max_element logit_vec))))))"

section \<open>The key-value cache\<close>

text \<open>\<^verbatim>\<open>key_str.find(past_key_prefix) != std::string::npos\<close>: the name contains the
  text somewhere.\<close>

fun string_find :: "string \<Rightarrow> string \<Rightarrow> nat option" where
  "string_find [] pat = (if pat = [] then Some 0 else None)"
| "string_find (c # cs) pat =
     (if take (length pat) (c # cs) = pat then Some 0
      else map_option Suc (string_find cs pat))"

fun initialize_loop :: "onnx_model \<Rightarrow> string list \<Rightarrow> tensor list \<Rightarrow> tensor list" where
  "initialize_loop m [] acc = acc"
| "initialize_loop m (key # keys) acc =
     (if string_find key ''past_key_values'' \<noteq> None
      then initialize_loop m keys
             (acc @ [\<lparr>tshape = [0, num_kv_heads m, 1, head_dim m], tdata = []\<rparr>])
      else initialize_loop m keys acc)"

definition initialize_past_key_values :: "onnx_model \<Rightarrow> tensor list" where
  "initialize_past_key_values m = initialize_loop m (decoder_input_names (sessions m)) []"

text \<open>
  \<^verbatim>\<open>update_kv_cache\<close> walks both vectors together and stops at the end of the shorter.
  The shapes are read with \<^verbatim>\<open>operator[]\<close> before the test: index 0 of the cached
  entry's shape and index 2 of the new value's, undefined when the shape is shorter. The
  function returns the cache as it has become (the moved-from \<^verbatim>\<open>new_values\<close> are
  dropped by the caller).
\<close>

fun update_kv_cache :: "tensor list \<Rightarrow> tensor list \<Rightarrow> bool \<Rightarrow> tensor list outcome" where
  "update_kv_cache [] new_values use_cache_branch = Returned []"
| "update_kv_cache (c # cache) [] use_cache_branch = Returned (c # cache)"
| "update_kv_cache (c # cache) (n # new_values) use_cache_branch =
     (let present_kv_shape = tshape n; past_kv_shape = tshape c in
      if length past_kv_shape < 1 \<or> length present_kv_shape < 3 then Undefined
      else
        (let past_kv_empty = (past_kv_shape ! 0 = 0);
             present_kv_tok_proc = present_kv_shape ! 2;
             is_decoder_kv = (1 < present_kv_tok_proc);
             c' = (if past_kv_empty \<or> is_decoder_kv \<or> \<not> use_cache_branch then n else c)
         in obind (update_kv_cache cache new_values use_cache_branch)
              (\<lambda>rest. Returned (c' # rest))))"

section \<open>The decode loop\<close>

text \<open>\<^verbatim>\<open>clone_tensor\<close> makes a tensor of the same shape over the same elements, so the
  decoder is run on the current token, the hidden state, every cache entry and the
  flag, in this order.\<close>

definition decode_next_token ::
  "onnx_model \<Rightarrow> int list \<Rightarrow> tensor \<Rightarrow> tensor list \<Rightarrow> bool \<Rightarrow> tensor list outcome" where
  "decode_next_token m cur last_hidden_state pkv use_cache_branch =
     decoder_run (sessions m)
       ([InInt64 [1, int (length cur)] cur, InFloat last_hidden_state]
        @ map InFloat pkv
        @ [InBool [1] [use_cache_branch]])"

record decode_state =
  cur_tokens :: "int list"
  past_key_values :: "tensor list"
  result_tokens :: "int list"

datatype loop_ctl = Continue | Break

text \<open>One pass through the body of the \<^verbatim>\<open>for\<close> loop of \<^verbatim>\<open>decode\<close>, at counter
  \<open>i\<close>. \<^verbatim>\<open>output.at(0)\<close> throws \<^verbatim>\<open>std::out_of_range\<close> on an empty output.\<close>

definition decode_iter ::
  "onnx_model \<Rightarrow> tensor \<Rightarrow> nat \<Rightarrow> decode_state \<Rightarrow> (loop_ctl \<times> decode_state) outcome" where
  "decode_iter m last_hidden_state i s =
     (let use_cache_branch = (0 < i) in
      obind (decode_next_token m (cur_tokens s) last_hidden_state (past_key_values s)
               use_cache_branch)
        (\<lambda>output.
           case output of
             [] \<Rightarrow> Thrown OutOfRange
           | logits # present_kv \<Rightarrow>
               obind (get_next_token logits)
                 (\<lambda>next_token.
                    let s1 = s\<lparr>cur_tokens := [next_token]\<rparr> in
                    if next_token = end_token then Returned (Break, s1)
                    else
                      (let s2 = s1\<lparr>result_tokens := result_tokens s1 @ [next_token]\<rparr> in
                       obind (update_kv_cache (past_key_values s2) present_kv use_cache_branch)
                         (\<lambda>cache. Returned (Continue, s2\<lparr>past_key_values := cache\<rparr>))))))"

function decode_loop ::
  "onnx_model \<Rightarrow> tensor \<Rightarrow> nat \<Rightarrow> nat \<Rightarrow> decode_state \<Rightarrow> decode_state outcome" where
  "decode_loop m last_hidden_state max_token_count i s =
     (if i < max_token_count then
        (case decode_iter m last_hidden_state i s of
           Returned (Continue, s') \<Rightarrow> decode_loop m last_hidden_state max_token_count (Suc i) s'
         | Returned (Break, s') \<Rightarrow> Returned s'
         | Thrown e \<Rightarrow> Thrown e
         | Terminated \<Rightarrow> Terminated
         | Undefined \<Rightarrow> Undefined)
      else Returned s)"
  by pat_completeness auto
termination
  by (relation "measure (\<lambda>(m, h, max_token_count, i, s). max_token_count - i)") auto

definition decode_init :: "onnx_model \<Rightarrow> decode_state" where
  "decode_init m =
     \<lparr>cur_tokens = [start_token],
      past_key_values = initialize_past_key_values m,
      result_tokens = []\<rparr>"

definition decode :: "onnx_model \<Rightarrow> tensor \<Rightarrow> nat \<Rightarrow> int list outcome" where
  "decode m last_hidden_state max_len =
     (let max_token_count = max max_len min_token_count in
      obind (decode_loop m last_hidden_state max_token_count 0 (decode_init m))
        (\<lambda>s. Returned (result_tokens s)))"

section \<open>Encoding and the whole run\<close>

definition encode :: "onnx_model \<Rightarrow> float32 list \<Rightarrow> tensor list outcome \<times> float32 list" where
  "encode m audio_data =
     encoder_run (sessions m) \<lparr>tshape = [1, int (length audio_data)], tdata = audio_data\<rparr>"

text \<open>The first two lines of \<^verbatim>\<open>run\<close>, and the budget that \<^verbatim>\<open>decode\<close> makes of
  their result.\<close>

definition compute_max_len :: "nat \<Rightarrow> nat" where
  "compute_max_len n =
     (let audio_len = ddiv (double_of_size_t n) (double_of_size_t sample_rate) in
      size_t_of_double (std_round (dmul audio_len (double_of_size_t max_tokens_per_second))))"

definition token_budget :: "nat \<Rightarrow> nat" where
  "token_budget n = max (compute_max_len n) min_token_count"

text \<open>The body of \<^verbatim>\<open>run\<close>; \<^verbatim>\<open>last_hidden_state.at(0)\<close> throws on an empty encoder
  output. The second component is the caller's buffer after the call.\<close>

definition run_body :: "onnx_model \<Rightarrow> float32 list \<Rightarrow> int list outcome \<times> float32 list" where
  "run_body m audio_data =
     (let max_len = compute_max_len (length audio_data);
          (enc, audio') = encode m audio_data
      in (obind enc
            (\<lambda>last_hidden_state.
               case last_hidden_state of
                 [] \<Rightarrow> Thrown OutOfRange
               | h # others \<Rightarrow> decode m h max_len),
          audio'))"

definition run :: "onnx_model \<Rightarrow> float32 list \<Rightarrow> int list outcome \<times> float32 list" where
  "run m audio_data = (let (r, audio') = run_body m audio_data in (noexcept r, audio'))"

section \<open>The transcriber\<close>

datatype ModelType = Base | Tiny

text \<open>\<^verbatim>\<open>::tolower\<close> in the C locale, the locale of a program that never calls
  \<^verbatim>\<open>setlocale\<close>: the letters A to Z move to a to z, every other byte stays.\<close>

definition tolower :: "char \<Rightarrow> char" where
  "tolower c =
     (let n = (of_char c :: nat) in if 65 \<le> n \<and> n \<le> 90 then char_of (n + 32) else c)"

definition from_string :: "string \<Rightarrow> ModelType option" where
  "from_string str =
     (let str_lower = map tolower str in
      if str_lower = ''base'' then Some Base
      else if str_lower = ''tiny'' then Some Tiny
      else None)"

record transcriber =
  model :: onnx_model
  tokenizer :: "int list \<Rightarrow> string outcome"

text \<open>The constructor of \<^verbatim>\<open>Transcriber\<close>, once the tokenizer and the sessions are
  loaded: the \<^verbatim>\<open>switch\<close> over the model type.\<close>

definition Transcriber :: "ModelType \<Rightarrow> engine \<Rightarrow> (int list \<Rightarrow> string outcome) \<Rightarrow> transcriber" where
  "Transcriber model_type eng tok =
     \<lparr>model = (case model_type of Base \<Rightarrow> OnnxModel_Base eng | Tiny \<Rightarrow> OnnxModel_Tiny eng),
      tokenizer = tok\<rparr>"

text \<open>What a call of \<^verbatim>\<open>transcribe\<close> does: its outcome, the caller's sample buffer after
  the call, and the token sequences handed to \<^verbatim>\<open>tokenizer->Decode\<close>, in order.\<close>

record transcribe_result =
  returned :: "string outcome"
  audio_after :: "float32 list"
  tokenizer_calls :: "int list list"

definition transcribe_body :: "transcriber \<Rightarrow> float32 list \<Rightarrow> transcribe_result" where
  "transcribe_body t audio_data =
     (let (r, audio') = run (model t) audio_data in
      case r of
        Returned tokens \<Rightarrow>
          if tokens = []
          then \<lparr>returned = Returned '''', audio_after = audio', tokenizer_calls = []\<rparr>
          else \<lparr>returned = tokenizer t tokens, audio_after = audio', tokenizer_calls = [tokens]\<rparr>
      | Thrown e \<Rightarrow> \<lparr>returned = Thrown e, audio_after = audio', tokenizer_calls = []\<rparr>
      | Terminated \<Rightarrow> \<lparr>returned = Terminated, audio_after = audio', tokenizer_calls = []\<rparr>
      | Undefined \<Rightarrow> \<lparr>returned = Undefined, audio_after = audio', tokenizer_calls = []\<rparr>)"

definition transcribe :: "transcriber \<Rightarrow> float32 list \<Rightarrow> transcribe_result" where
  "transcribe t audio_data =
     (let res = transcribe_body t audio_data in res\<lparr>returned := noexcept (returned res)\<rparr>)"

text \<open>\<^verbatim>\<open>Transcriber::operator()\<close>, itself \<^verbatim>\<open>noexcept\<close>.\<close>

definition call_operator :: "transcriber \<Rightarrow> float32 list \<Rightarrow> transcribe_result" where
  "call_operator t audio_data =
     (let res = transcribe t audio_data in res\<lparr>returned := noexcept (returned res)\<rparr>)"

section \<open>The specification's terms\<close>

text \<open>The token budget as the specification writes it, in exact arithmetic:
  \<open>round((sample_count / sample_rate) * 6)\<close>, then raised to at least 1.\<close>

definition token_budget_spec :: "nat \<Rightarrow> nat" where
  "token_budget_spec n = max 1 (nat (round (real n / 16000 * 6)))"

text \<open>A casing of a lower-case word: the same letters, each one either as it stands or
  as its capital.\<close>

definition uppercase :: "char \<Rightarrow> char" where
  "uppercase c =
     (let n = (of_char c :: nat) in if 97 \<le> n \<and> n \<le> 122 then char_of (n - 32) else c)"

definition casing_of :: "string \<Rightarrow> string \<Rightarrow> bool" where
  "casing_of s w = list_all2 (\<lambda>c d. c = d \<or> c = uppercase d) s w"

definition is_lower :: "char \<Rightarrow> bool" where
  "is_lower d = (97 \<le> (of_char d :: nat) \<and> (of_char d :: nat) \<le> 122)"

section \<open>Example sessions\<close>

text \<open>Small sessions to run the definitions on. The vocabulary has four tokens;
  \<open>logits_choosing k\<close> has its maximum at index \<open>k\<close>.\<close>

definition logits_choosing :: "nat \<Rightarrow> tensor" where
  "logits_choosing k =
     \<lparr>tshape = [1, 1, 4], tdata = map (\<lambda>j. Finite (if j = k then 1 else 0)) [0, 1, 2, 3]\<rparr>"

definition tied_logits :: tensor where
  "tied_logits = \<lparr>tshape = [1, 1, 4], tdata = [Finite 1, Finite 7, Finite 7, Finite 3]\<rparr>"

definition misshaped_logits :: tensor where
  "misshaped_logits = \<lparr>tshape = [1, 2, 4], tdata = replicate 8 (Finite 0)\<rparr>"

text \<open>Logits whose first element is NaN, and logits with \<open>2\<^sup>3\<^sup>1 + 1\<close> elements whose
  only maximum is the last one, at index \<open>2\<^sup>3\<^sup>1\<close>.\<close>

definition nan_first_logits :: tensor where
  "nan_first_logits = \<lparr>tshape = [1, 1, 3], tdata = [NaN, Finite 5, Finite 7]\<rparr>"

definition long_logits :: tensor where
  "long_logits =
     \<lparr>tshape = [1, 1, 2147483649],
      tdata = Finite 0 # replicate 2147483647 (Finite 0) @ [Finite 1]\<rparr>"

definition demo_hidden :: tensor where
  "demo_hidden = \<lparr>tshape = [1, 1, 288], tdata = replicate 288 (Finite 0)\<rparr>"

definition demo_empty_kv :: tensor where
  "demo_empty_kv = \<lparr>tshape = [0, 8, 1, 36], tdata = []\<rparr>"

definition demo_present_kv :: tensor where
  "demo_present_kv = \<lparr>tshape = [1, 8, 1, 36], tdata = replicate 288 (Finite 0)\<rparr>"

definition demo_cached_kv :: tensor where
  "demo_cached_kv = \<lparr>tshape = [1, 8, 5, 36], tdata = replicate 1440 (Finite 1)\<rparr>"

definition first_input_ids :: "ort_input list \<Rightarrow> int list" where
  "first_input_ids ins = (case ins of InInt64 shp ids # rest \<Rightarrow> ids | _ \<Rightarrow> [])"

definition demo_encoder_run :: "tensor \<Rightarrow> tensor list outcome \<times> float32 list" where
  "demo_encoder_run x = (Returned [demo_hidden], tdata x)"

definition demo_names :: "string list" where
  "demo_names =
     [''input_ids'', ''encoder_hidden_states'',
      ''past_key_values.0.decoder.key'', ''past_key_values.0.decoder.value'',
      ''use_cache_branch'']"

text \<open>A decoder that answers the start token with token 3 and anything else with the
  end token.\<close>

definition one_word_engine :: engine where
  "one_word_engine =
     \<lparr>decoder_input_names = demo_names,
      encoder_run = demo_encoder_run,
      decoder_run = (\<lambda>ins.
        Returned ((if first_input_ids ins = [start_token] then logits_choosing 3
                   else logits_choosing 2) # [demo_present_kv, demo_present_kv]))\<rparr>"

text \<open>A decoder that always chooses the end token, one that always chooses token 1, and
  one whose logits have the shape \<open>[1, 2, 4]\<close>.\<close>

definition silent_engine :: engine where
  "silent_engine =
     \<lparr>decoder_input_names = demo_names,
      encoder_run = demo_encoder_run,
      decoder_run = (\<lambda>ins. Returned [logits_choosing 2, demo_present_kv, demo_present_kv])\<rparr>"

definition start_echo_engine :: engine where
  "start_echo_engine =
     \<lparr>decoder_input_names = demo_names,
      encoder_run = demo_encoder_run,
      decoder_run = (\<lambda>ins. Returned [logits_choosing 1, demo_present_kv, demo_present_kv])\<rparr>"

definition bad_shape_engine :: engine where
  "bad_shape_engine =
     \<lparr>decoder_input_names = demo_names,
      encoder_run = demo_encoder_run,
      decoder_run = (\<lambda>ins. Returned [misshaped_logits, demo_present_kv, demo_present_kv])\<rparr>"

text \<open>The input names of a decoder graph with six layers and four cache inputs for each
  layer (decoder and encoder, key and value).\<close>

definition six_layer_input_names :: "string list" where
  "six_layer_input_names =
     [''input_ids'', ''encoder_hidden_states'']
     @ concat (map (\<lambda>layer.
          [''past_key_values.'' @ layer @ ''.decoder.key'',
           ''past_key_values.'' @ layer @ ''.decoder.value'',
           ''past_key_values.'' @ layer @ ''.encoder.key'',
           ''past_key_values.'' @ layer @ ''.encoder.value''])
          [''0'', ''1'', ''2'', ''3'', ''4'', ''5''])
     @ [''use_cache_branch'']"

definition six_layer_engine :: engine where
  "six_layer_engine =
     \<lparr>decoder_input_names = six_layer_input_names,
      encoder_run = demo_encoder_run,
      decoder_run = (\<lambda>ins. Returned (logits_choosing 2 # replicate 24 demo_present_kv))\<rparr>"

definition demo_tokenizer :: "int list \<Rightarrow> string outcome" where
  "demo_tokenizer toks = Returned (concat (map (\<lambda>t. if t = 3 then ''hello'' else ''?'') toks))"

definition failing_tokenizer :: "int list \<Rightarrow> string outcome" where
  "failing_tokenizer toks = Thrown (TokenizerError ''cannot decode'')"

definition demo_audio :: "float32 list" where
  "demo_audio = [Finite (1 / 2), Finite (- 1 / 4), Finite 0]"

definition one_word_after_first :: decode_state where
  "one_word_after_first =
     \<lparr>cur_tokens = [3], past_key_values = [demo_present_kv, demo_present_kv],
      result_tokens = [3]\<rparr>"

definition one_word_final :: decode_state where
  "one_word_final =
     \<lparr>cur_tokens = [2], past_key_values = [demo_present_kv, demo_present_kv],
      result_tokens = [3]\<rparr>"

section \<open>Lemmas\<close>

subsection \<open>Outcomes\<close>

lemma obind_Returned_iff:
  "obind r f = Returned y \<longleftrightarrow> (\<exists>x. r = Returned x \<and> f x = Returned y)"
  by (cases r) simp_all

lemma noexcept_not_Thrown: "noexcept r \<noteq> Thrown e"
  by (cases r) simp_all

lemma noexcept_idem: "noexcept (noexcept r) = noexcept r"
  by (cases r) simp_all

subsection \<open>Binary64 rounding\<close>

lemma pow2_powi: "pow2 e = 2 powi e"
  by (simp add: pow2_def power_int_def field_simps)

lemma pow2_pos: "0 < pow2 e"
  by (simp add: pow2_powi)

lemma pow2_add: "pow2 (a + b) = pow2 a * pow2 b"
  by (simp add: pow2_powi power_int_add)

lemma pow2_nat: "pow2 (int k) = 2 ^ k"
  by (simp add: pow2_def)

lemma pow2_neg_nat: "pow2 (- int k) = 1 / 2 ^ k"
  by (simp add: pow2_powi power_int_minus inverse_eq_divide)

lemma pow2_less_iff: "pow2 a < pow2 b \<longleftrightarrow> a < b"
proof
  assume "a < b"
  then show "pow2 a < pow2 b"
    unfolding pow2_powi by (intro power_int_strict_increasing) auto
next
  assume h: "pow2 a < pow2 b"
  show "a < b"
  proof (rule ccontr)
    assume "\<not> a < b"
    then have "b \<le> a" by simp
    then have "(2::real) powi b \<le> 2 powi a" by (intro power_int_increasing) auto
    with h show False by (simp add: pow2_powi)
  qed
qed

lemma floorlog2_real_bounds:
  assumes "0 < N"
  shows "1 \<le> floorlog 2 N"
    and "(2::real) ^ (floorlog 2 N - 1) \<le> real N"
    and "real N + 1 \<le> 2 ^ floorlog 2 N"
proof -
  from floorlog_bounds[OF assms, of 2]
  have fb: "2 ^ (floorlog 2 N - 1) \<le> N" "N < 2 ^ floorlog 2 N" by simp_all
  show "1 \<le> floorlog 2 N" using fb(2) assms by (cases "floorlog 2 N") auto
  from of_nat_mono[OF fb(1), where ?'a = real]
  show "(2::real) ^ (floorlog 2 N - 1) \<le> real N" by simp
  from fb(2) have "Suc N \<le> 2 ^ floorlog 2 N" by simp
  from of_nat_mono[OF this, where ?'a = real]
  show "real N + 1 \<le> 2 ^ floorlog 2 N" by simp
qed

lemma ilog2_bounds_ge1:
  assumes "1 \<le> \<bar>x\<bar>"
  shows "pow2 (ilog2 x) \<le> \<bar>x\<bar> \<and> \<bar>x\<bar> < pow2 (ilog2 x + 1)"
proof -
  define N where "N = nat \<lfloor>\<bar>x\<bar>\<rfloor>"
  define f where "f = floorlog 2 N"
  have fl1: "1 \<le> \<lfloor>\<bar>x\<bar>\<rfloor>" using assms by (simp add: le_floor_iff)
  then have N: "0 < N" by (simp add: N_def)
  have rN: "real N = of_int \<lfloor>\<bar>x\<bar>\<rfloor>" using fl1 by (simp add: N_def)
  have Nx1: "real N \<le> \<bar>x\<bar>" unfolding rN by (rule of_int_floor_le)
  have Nx2: "\<bar>x\<bar> < real N + 1" unfolding rN by (rule real_of_int_floor_add_one_gt)
  note fb = floorlog2_real_bounds[OF N, folded f_def]
  have e: "ilog2 x = int (f - 1)"
    using assms fb(1) by (simp add: ilog2_def N_def f_def)
  have p1: "pow2 (ilog2 x) = 2 ^ (f - 1)" by (simp only: e pow2_nat)
  have "ilog2 x + 1 = int f" using e fb(1) by simp
  then have p2: "pow2 (ilog2 x + 1) = 2 ^ f" by (simp only: pow2_nat)
  show ?thesis unfolding p1 p2 using fb(2,3) Nx1 Nx2 by linarith
qed

lemma ilog2_bounds_lt1:
  assumes "0 < \<bar>x\<bar>" "\<bar>x\<bar> < 1"
  shows "pow2 (ilog2 x) \<le> \<bar>x\<bar> \<and> \<bar>x\<bar> < pow2 (ilog2 x + 1)"
proof -
  define y where "y = 1 / \<bar>x\<bar>"
  have y1: "1 < y" using assms by (simp add: y_def)
  define K where "K = nat (\<lceil>y\<rceil> - 1)"
  define f where "f = floorlog 2 K"
  have c2: "2 \<le> \<lceil>y\<rceil>" using y1 by (simp add: le_ceiling_iff)
  then have K: "0 < K" by (simp add: K_def)
  have rK: "real K = of_int \<lceil>y\<rceil> - 1" using c2 by (simp add: K_def)
  have Ky1: "real K < y" unfolding rK using ceiling_correct[of y] by linarith
  have Ky2: "y \<le> real K + 1" unfolding rK using le_of_int_ceiling[of y] by linarith
  note fb = floorlog2_real_bounds[OF K, folded f_def]
  have e: "ilog2 x = - int f"
    using assms(2) by (simp add: ilog2_def K_def f_def y_def)
  have a: "(2::real) ^ (f - 1) < y" using fb(2) Ky1 by linarith
  have b: "y \<le> 2 ^ f" using fb(3) Ky2 by linarith
  have p1: "pow2 (ilog2 x) = 1 / 2 ^ f" by (simp only: e pow2_neg_nat)
  have "ilog2 x + 1 = - int (f - 1)" using e fb(1) by simp
  then have p2: "pow2 (ilog2 x + 1) = 1 / 2 ^ (f - 1)" by (simp only: pow2_neg_nat)
  have xy: "\<bar>x\<bar> = 1 / y" using assms(1) by (simp add: y_def)
  have ypos: "0 < y" using y1 by simp
  have "1 / 2 ^ f \<le> 1 / y"
    using b ypos by (intro divide_left_mono) simp_all
  moreover have "1 / y < 1 / 2 ^ (f - 1)"
    using a ypos by (intro divide_strict_left_mono mult_pos_pos) simp_all
  ultimately show ?thesis unfolding p1 p2 xy by simp
qed

lemma ilog2_bounds:
  assumes "x \<noteq> 0"
  shows "pow2 (ilog2 x) \<le> \<bar>x\<bar> \<and> \<bar>x\<bar> < pow2 (ilog2 x + 1)"
proof (cases "1 \<le> \<bar>x\<bar>")
  case True
  then show ?thesis by (rule ilog2_bounds_ge1)
next
  case False
  with assms show ?thesis by (intro ilog2_bounds_lt1) simp_all
qed

lemma round_ties_even_err: "\<bar>of_int (round_ties_even y) - y\<bar> \<le> 1 / 2"
  unfolding round_ties_even_def Let_def by (auto simp: abs_le_iff) (linarith+)?

lemma round_ties_even_of_int: "round_ties_even (of_int k) = k"
  by (simp add: round_ties_even_def)

lemma round_ties_even_nonneg: "0 \<le> y \<Longrightarrow> 0 \<le> round_ties_even y"
  unfolding round_ties_even_def Let_def by (auto simp: le_floor_iff)

lemma fl64_nonneg: "0 \<le> x \<Longrightarrow> 0 \<le> fl64 x"
  unfolding fl64_def Let_def
  by (auto intro!: mult_nonneg_nonneg round_ties_even_nonneg divide_nonneg_pos
      simp: pow2_pos less_imp_le)

text \<open>The relative error of one rounding is at most \<open>2\<^sup>-\<^sup>5\<^sup>3\<close>, and a number with a
  significand below \<open>2\<^sup>5\<^sup>3\<close> is not changed.\<close>

lemma fl64_error:
  "\<bar>fl64 x - x\<bar> \<le> \<bar>x\<bar> / 2 ^ 53"
proof (cases "x = 0")
  case True
  then show ?thesis by (simp add: fl64_def)
next
  case False
  define q where "q = pow2 (ilog2 x - 52)"
  have q: "0 < q" by (simp add: q_def pow2_pos)
  have fl: "fl64 x = of_int (round_ties_even (x / q)) * q"
    using False by (simp add: fl64_def q_def Let_def)
  have "pow2 (ilog2 x) = pow2 ((ilog2 x - 52) + 52)" by simp
  also have "\<dots> = q * 2 ^ 52" unfolding q_def pow2_add by (simp add: pow2_def)
  finally have "q * 2 ^ 52 \<le> \<bar>x\<bar>" using ilog2_bounds[OF False] by simp
  then have qx: "q / 2 \<le> \<bar>x\<bar> / 2 ^ 53" by (simp add: field_simps)
  have "fl64 x - x = (of_int (round_ties_even (x / q)) - x / q) * q"
    using q by (simp add: fl field_simps)
  then have "\<bar>fl64 x - x\<bar> = \<bar>of_int (round_ties_even (x / q)) - x / q\<bar> * q"
    using q by (simp add: abs_mult)
  also have "\<dots> \<le> (1 / 2) * q"
    using q round_ties_even_err[of "x / q"] by (intro mult_right_mono) auto
  finally show ?thesis using qx by simp
qed

lemma fl64_exact:
  assumes "x = of_int m * pow2 k" "\<bar>m\<bar> < 2 ^ 53"
  shows "fl64 x = x"
proof (cases "x = 0")
  case True
  then show ?thesis by (simp add: fl64_def)
next
  case False
  define e where "e = ilog2 x - 52"
  have "pow2 (ilog2 x) \<le> \<bar>x\<bar>" using ilog2_bounds[OF False] by simp
  also have "\<bar>x\<bar> = \<bar>of_int m\<bar> * pow2 k"
    using pow2_pos[of k] by (simp add: assms(1) abs_mult)
  also have "\<dots> < 2 ^ 53 * pow2 k"
  proof -
    have "real_of_int \<bar>m\<bar> < real_of_int (2 ^ 53)" using assms(2) by (simp only: of_int_less_iff)
    then have "\<bar>real_of_int m\<bar> < 2 ^ 53" by simp
    then show ?thesis using pow2_pos[of k] by simp
  qed
  also have "\<dots> = pow2 (53 + k)" unfolding pow2_add by (simp add: pow2_def)
  finally have "ilog2 x < 53 + k" by (simp add: pow2_less_iff)
  then have ek: "0 \<le> k - e" by (simp add: e_def)
  have "pow2 k = pow2 ((k - e) + e)" by simp
  also have "\<dots> = pow2 (k - e) * pow2 e" by (simp only: pow2_add)
  also have "pow2 (k - e) = 2 ^ nat (k - e)" using ek by (simp add: pow2_def)
  finally have "x / pow2 e = of_int (m * 2 ^ nat (k - e))"
    using pow2_pos[of e] by (simp add: assms(1))
  then have "round_ties_even (x / pow2 e) = m * 2 ^ nat (k - e)"
    by (simp only: round_ties_even_of_int)
  then have "fl64 x = of_int (m * 2 ^ nat (k - e)) * pow2 e"
    using False by (simp add: fl64_def e_def Let_def)
  also have "\<dots> = x / pow2 e * pow2 e"
    using \<open>x / pow2 e = of_int (m * 2 ^ nat (k - e))\<close> by simp
  also have "\<dots> = x" using pow2_pos[of e] by simp
  finally show ?thesis .
qed

lemma fl64_of_nat: "n < 2 ^ 53 \<Longrightarrow> fl64 (real n) = real n"
proof -
  assume "n < 2 ^ 53"
  then have "\<bar>int n\<bar> < 2 ^ 53" by simp
  from fl64_exact[of "real n" "int n" 0, OF _ this] show ?thesis by (simp add: pow2_def)
qed

subsection \<open>The token budget\<close>

lemma double_consts:
  "double_of_size_t sample_rate = 16000" "double_of_size_t max_tokens_per_second = 6"
  using fl64_of_nat[of 16000] fl64_of_nat[of 6]
  by (simp_all add: double_of_size_t_def sample_rate_def max_tokens_per_second_def)

lemma compute_max_len_unfold:
  assumes "n < 2 ^ 53"
  shows "compute_max_len n = nat \<lfloor>fl64 (fl64 (real n / 16000) * 6) + 1 / 2\<rfloor>"
proof -
  have n: "double_of_size_t n = real n"
    using assms by (simp add: double_of_size_t_def fl64_of_nat)
  have "0 \<le> fl64 (fl64 (real n / 16000) * 6)"
    by (intro fl64_nonneg mult_nonneg_nonneg) simp_all
  then show ?thesis
    by (simp add: compute_max_len_def Let_def n double_consts ddiv_def dmul_def std_round_def
        size_t_of_double_def)
qed

text \<open>Where \<open>3 n / 8000\<close> lies exactly between two integers, \<open>n\<close> is a multiple of
  4000 and both roundings are exact; everywhere else it is at least \<open>1 / 8000\<close> away
  from the halfway point, more than the two roundings can move it.\<close>

lemma budget_halfway:
  assumes "n = 4000 * m" "n < 2 ^ 50"
  shows "fl64 (fl64 (real n / 16000) * 6) = real n / 16000 * 6"
proof -
  have m: "m < 2 ^ 50" using assms by simp
  have "real n / 16000 = of_int (int m) * pow2 (- 2)"
    by (simp add: assms(1) pow2_def)
  moreover have "\<bar>int m\<bar> < 2 ^ 53" using m by simp
  ultimately have a: "fl64 (real n / 16000) = real n / 16000"
    by (rule fl64_exact)
  have "real n / 16000 * 6 = of_int (int (3 * m)) * pow2 (- 1)"
    by (simp add: assms(1) pow2_def)
  moreover have "\<bar>int (3 * m)\<bar> < 2 ^ 53" using m by simp
  ultimately have "fl64 (real n / 16000 * 6) = real n / 16000 * 6"
    by (rule fl64_exact)
  then show ?thesis by (simp only: a)
qed

lemma budget_error:
  assumes "n < 2 ^ 50"
  shows "\<bar>fl64 (fl64 (real n / 16000) * 6) - real n / 16000 * 6\<bar> < 1 / 8000"
proof -
  define x1 where "x1 = real n / 16000"
  define a where "a = fl64 x1"
  define b where "b = fl64 (a * 6)"
  have "real n < 2 ^ 50" using assms
    by (metis of_nat_less_iff of_nat_numeral of_nat_power)
  then have x1: "0 \<le> x1" "x1 < 2 ^ 50 / 16000" by (simp_all add: x1_def)
  have a0: "0 \<le> a" unfolding a_def using x1(1) by (rule fl64_nonneg)
  have x1': "x1 * 125 < 8796093022208" using x1(2) by simp
  have e1: "\<bar>a - x1\<bar> \<le> x1 / 9007199254740992"
    using fl64_error[of x1] x1(1) by (simp add: a_def)
  have e2: "\<bar>b - a * 6\<bar> \<le> a * 6 / 9007199254740992"
    using fl64_error[of "a * 6"] a0 by (simp add: b_def)
  have "\<bar>b - x1 * 6\<bar> < 1 / 8000"
    using e1 e2 x1(1) x1' a0 by linarith
  then show ?thesis by (simp only: x1_def a_def b_def)
qed

lemma compute_max_len_exact:
  assumes "n < 2 ^ 50"
  shows "compute_max_len n = nat (round (real n / 16000 * 6))"
proof -
  define T where "T = 3 * int n + 4000"
  define k where "k = T div 8000"
  define b where "b = fl64 (fl64 (real n / 16000) * 6)"
  have n53: "n < 2 ^ 53" using assms by (rule less_trans) simp
  have xT: "real n / 16000 * 6 + 1 / 2 = real_of_int T / real_of_int 8000"
    by (simp add: T_def field_simps)
  have rk: "round (real n / 16000 * 6) = k"
    unfolding round_def xT k_def by (rule floor_divide_of_int_eq)
  have "\<lfloor>b + 1 / 2\<rfloor> = k"
  proof (cases "T mod 8000 = 0")
    case True
    then have "8000 dvd T" by (simp add: dvd_eq_mod_eq_0)
    then have "4000 dvd 3 * int n + 4000" unfolding T_def by (rule dvd_trans[rotated]) simp
    then have "4000 dvd 3 * int n" by (simp add: dvd_add_left_iff)
    then have "4000 dvd 1333 * (3 * int n)" by (rule dvd_mult)
    moreover have "(4000::int) dvd 4000 * int n" by simp
    ultimately have "4000 dvd 4000 * int n - 1333 * (3 * int n)" by (intro dvd_diff)
    then have "4000 dvd int n" by simp
    then have "(4000::nat) dvd n" by presburger
    then obtain m where "n = 4000 * m" by (rule dvdE)
    from budget_halfway[OF this assms] have "b = real n / 16000 * 6" by (simp only: b_def)
    then have "\<lfloor>b + 1 / 2\<rfloor> = round (real n / 16000 * 6)" by (simp only: round_def)
    then show ?thesis by (simp only: rk)
  next
    case False
    define r where "r = T mod 8000"
    have "0 \<le> r" "r < 8000" by (simp_all add: r_def)
    with False have r: "1 \<le> r" "r \<le> 7999" by (simp_all add: r_def)
    have T: "T = 8000 * k + r" by (simp add: k_def r_def)
    have "real_of_int T = 8000 * real_of_int k + real_of_int r"
      by (simp add: T)
    then have x: "real n / 16000 * 6 = real_of_int k + (real_of_int r - 4000) / 8000"
      using xT by (simp add: field_simps)
    have r': "1 \<le> real_of_int r" "real_of_int r \<le> 7999" using r by simp_all
    from budget_error[OF assms]
    have "\<bar>b - (real_of_int k + (real_of_int r - 4000) / 8000)\<bar> < 1 / 8000"
      by (simp only: b_def x)
    then have bb: "b - (real_of_int k + (real_of_int r - 4000) / 8000) < 1 / 8000"
      "- (b - (real_of_int k + (real_of_int r - 4000) / 8000)) < 1 / 8000"
      by (simp_all only: abs_less_iff)
    have "of_int k \<le> b + 1 / 2" using bb(2) r'(1) by argo
    moreover have "b + 1 / 2 < of_int k + 1" using bb(1) r'(2) by argo
    ultimately show ?thesis by (rule floor_unique)
  qed
  with compute_max_len_unfold[OF n53] rk show ?thesis by (simp add: b_def)
qed

lemma token_budget_ge_1: "1 \<le> token_budget n"
  by (simp add: token_budget_def min_token_count_def)

subsection \<open>Comparing floats, and the first maximum\<close>

lemma flt_trans: "flt x y \<Longrightarrow> flt y z \<Longrightarrow> flt x z"
  by (cases x; cases y; cases z) simp_all

lemma not_flt_fle: "\<not> is_nan x \<Longrightarrow> \<not> is_nan y \<Longrightarrow> \<not> flt x y \<Longrightarrow> fle y x"
  by (cases x; cases y) (auto simp: fle_def is_nan_def)

lemma fle_flt_trans: "fle x y \<Longrightarrow> flt y z \<Longrightarrow> flt x z"
  by (auto simp: fle_def dest: flt_trans)

lemma fle_refl: "\<not> is_nan x \<Longrightarrow> fle x x"
  by (simp add: fle_def)

lemma flt_fle: "flt x y \<Longrightarrow> fle x y"
  by (simp add: fle_def)

lemma max_element_scan_first_max:
  assumes "drop i ys = xs" "bi < i" "i \<le> length ys" "best = ys ! bi"
    and "\<forall>x \<in> set ys. \<not> is_nan x"
    and "\<forall>j < i. fle (ys ! j) best"
    and "\<forall>j < bi. flt (ys ! j) best"
  shows "max_element_scan xs i best bi < length ys
       \<and> (\<forall>j < length ys. fle (ys ! j) (ys ! max_element_scan xs i best bi))
       \<and> (\<forall>j < max_element_scan xs i best bi. flt (ys ! j) (ys ! max_element_scan xs i best bi))"
  using assms
proof (induction xs arbitrary: i best bi)
  case Nil
  then have "i = length ys" by simp
  with Nil show ?case by simp
next
  case (Cons x xs)
  from Cons.prems(1) have i: "i < length ys"
    by (metis drop_all list.distinct(1) not_le)
  from Cons.prems(1) i have x: "x = ys ! i" and d: "drop (Suc i) ys = xs"
    by (metis Cons_nth_drop_Suc list.inject)+
  have nn: "\<not> is_nan x" "\<not> is_nan best"
    using Cons.prems(2,4,5) i x by auto
  show ?case
  proof (cases "flt best x")
    case True
    have a: "\<forall>j < Suc i. fle (ys ! j) x"
    proof (intro allI impI)
      fix j assume "j < Suc i"
      then consider "j < i" | "j = i" by linarith
      then show "fle (ys ! j) x"
      proof cases
        case 1
        with Cons.prems(6) have "fle (ys ! j) best" by simp
        with True show ?thesis by (blast intro: flt_fle fle_flt_trans)
      next
        case 2
        with x nn show ?thesis by (simp add: fle_refl)
      qed
    qed
    have b: "\<forall>j < i. flt (ys ! j) x"
      using Cons.prems(6) True by (blast intro: fle_flt_trans)
    from Cons.IH[OF d _ _ x Cons.prems(5) a b] i True show ?thesis by simp
  next
    case False
    have a: "\<forall>j < Suc i. fle (ys ! j) best"
    proof (intro allI impI)
      fix j assume "j < Suc i"
      then consider "j < i" | "j = i" by linarith
      then show "fle (ys ! j) best"
      proof cases
        case 1
        with Cons.prems(6) show ?thesis by simp
      next
        case 2
        with x nn False show ?thesis by (simp add: not_flt_fle)
      qed
    qed
    from Cons.IH[OF d _ _ Cons.prems(4) Cons.prems(5) a Cons.prems(7)] i False Cons.prems(2)
    show ?thesis by simp
  qed
qed

lemma max_element_first_max:
  assumes "ys \<noteq> []" "\<forall>x \<in> set ys. \<not> is_nan x"
  shows "max_element ys < length ys
       \<and> (\<forall>j < length ys. fle (ys ! j) (ys ! max_element ys))
       \<and> (\<forall>j < max_element ys. flt (ys ! j) (ys ! max_element ys))"
proof -
  from assms(1) obtain y rest where ys: "ys = y # rest" by (cases ys) auto
  have "\<not> is_nan y" using assms(2) ys by simp
  then have a: "\<forall>j < (1::nat). fle (ys ! j) y" by (simp add: ys fle_refl)
  have d: "drop 1 ys = rest" by (simp add: ys)
  have l: "1 \<le> length ys" by (simp add: ys)
  have b: "y = ys ! 0" by (simp add: ys)
  have m: "max_element ys = max_element_scan rest 1 y 0" by (simp add: ys max_element_def)
  from max_element_scan_first_max[OF d _ l b assms(2) a]
  show ?thesis unfolding m by simp
qed

lemma to_int32_id: "0 \<le> k \<Longrightarrow> k < 2 ^ 31 \<Longrightarrow> to_int32 k = k"
  by (simp add: to_int32_def)

subsection \<open>The cache and the loop\<close>

lemma update_kv_cache_length:
  "update_kv_cache cache new_values u = Returned cache' \<Longrightarrow> length cache' = length cache"
proof (induction cache new_values u arbitrary: cache' rule: update_kv_cache.induct)
  case (3 c cache n new_values u)
  then show ?case
    by (auto simp: Let_def obind_Returned_iff split: if_splits)
qed simp_all

lemma update_kv_cache_zip:
  "length cache = length new_values \<Longrightarrow>
   \<forall>c \<in> set cache. 1 \<le> length (tshape c) \<Longrightarrow>
   \<forall>n \<in> set new_values. 3 \<le> length (tshape n) \<Longrightarrow>
   update_kv_cache cache new_values u =
     Returned (map (\<lambda>(c, n). if tshape c ! 0 = 0 \<or> 1 < tshape n ! 2 \<or> \<not> u then n else c)
                 (zip cache new_values))"
proof (induction cache new_values rule: list_induct2)
  case Nil
  then show ?case by simp
next
  case (Cons c cs n ns)
  then show ?case by (auto simp: Let_def)
qed

lemma initialize_loop_length:
  "length (initialize_loop m keys acc) =
     length acc + length (filter (\<lambda>key. string_find key ''past_key_values'' \<noteq> None) keys)"
  by (induction keys arbitrary: acc) simp_all

lemma decode_iter_Returned:
  assumes "decode_iter m h i s = Returned (ctl, s')"
  shows "\<exists>logits present tok.
           decode_next_token m (cur_tokens s) h (past_key_values s) (0 < i)
             = Returned (logits # present)
         \<and> get_next_token logits = Returned tok
         \<and> (if tok = end_token then ctl = Break \<and> s' = s\<lparr>cur_tokens := [tok]\<rparr>
            else ctl = Continue \<and>
              (\<exists>cache. update_kv_cache (past_key_values s) present (0 < i) = Returned cache
                 \<and> s' = s\<lparr>cur_tokens := [tok], result_tokens := result_tokens s @ [tok],
                           past_key_values := cache\<rparr>))"
proof -
  from assms obtain outp where
    out: "decode_next_token m (cur_tokens s) h (past_key_values s) (0 < i) = Returned outp"
    unfolding decode_iter_def Let_def obind_Returned_iff by blast
  from assms out obtain logits present where o: "outp = logits # present"
    unfolding decode_iter_def Let_def by (cases outp) auto
  from assms out o obtain tok where tok: "get_next_token logits = Returned tok"
    unfolding decode_iter_def Let_def by (cases "get_next_token logits") auto
  show ?thesis
  proof (cases "tok = end_token")
    case True
    with assms out o tok show ?thesis
      unfolding decode_iter_def Let_def by auto
  next
    case False
    with assms out o tok show ?thesis
      unfolding decode_iter_def Let_def by (auto simp: obind_Returned_iff)
  qed
qed

lemma decode_iter_cache_length:
  assumes "decode_iter m h i s = Returned (ctl, s')"
  shows "length (past_key_values s') = length (past_key_values s)"
proof -
  from decode_iter_Returned[OF assms] obtain present tok where
    h: "if tok = end_token then ctl = Break \<and> s' = s\<lparr>cur_tokens := [tok]\<rparr>
        else ctl = Continue \<and>
          (\<exists>cache. update_kv_cache (past_key_values s) present (0 < i) = Returned cache
             \<and> s' = s\<lparr>cur_tokens := [tok], result_tokens := result_tokens s @ [tok],
                       past_key_values := cache\<rparr>)"
    by blast
  show ?thesis
  proof (cases "tok = end_token")
    case True
    with h show ?thesis by simp
  next
    case False
    with h obtain cache where
      "update_kv_cache (past_key_values s) present (0 < i) = Returned cache"
      "s' = s\<lparr>cur_tokens := [tok], result_tokens := result_tokens s @ [tok],
                 past_key_values := cache\<rparr>"
      by auto
    then show ?thesis by (simp add: update_kv_cache_length)
  qed
qed

lemma decode_loop_cache_length:
  "decode_loop m h mx i s = Returned s' \<Longrightarrow>
     length (past_key_values s') = length (past_key_values s)"
proof (induction m h mx i s rule: decode_loop.induct)
  case (1 m h mx i s)
  show ?case
  proof (cases "i < mx")
    case False
    with "1.prems" show ?thesis by simp
  next
    case True
    show ?thesis
    proof (cases "decode_iter m h i s")
      case (Returned p)
      obtain ctl s1 where p: "p = (ctl, s1)" by (cases p)
      have len1: "length (past_key_values s1) = length (past_key_values s)"
        using Returned p by (auto dest: decode_iter_cache_length)
      show ?thesis
      proof (cases ctl)
        case Continue
        with True Returned p "1.prems" have "decode_loop m h mx (Suc i) s1 = Returned s'"
          by simp
        with "1.IH"[OF True Returned p[symmetric] Continue] len1 show ?thesis by simp
      next
        case Break
        with True Returned p "1.prems" have "s' = s1" by simp
        with len1 show ?thesis by simp
      qed
    next
      case (Thrown e) with True "1.prems" show ?thesis by simp
    next
      case Terminated with True "1.prems" show ?thesis by simp
    next
      case Undefined with True "1.prems" show ?thesis by simp
    qed
  qed
qed

lemma decode_loop_tokens:
  "decode_loop m h mx i s = Returned s' \<Longrightarrow>
     \<exists>new. result_tokens s' = result_tokens s @ new
        \<and> length new \<le> mx - i
        \<and> end_token \<notin> set new
        \<and> (\<forall>tok \<in> set new. \<exists>ins lg rest.
              decoder_run (sessions m) ins = Returned (lg # rest)
              \<and> get_next_token lg = Returned tok)"
proof (induction m h mx i s rule: decode_loop.induct)
  case (1 m h mx i s)
  show ?case
  proof (cases "i < mx")
    case False
    with "1.prems" show ?thesis by simp
  next
    case True
    show ?thesis
    proof (cases "decode_iter m h i s")
      case (Returned p)
      obtain ctl s1 where p: "p = (ctl, s1)" by (cases p)
      from Returned p have it: "decode_iter m h i s = Returned (ctl, s1)" by simp
      from decode_iter_Returned[OF it] obtain logits present tok where
        run: "decode_next_token m (cur_tokens s) h (past_key_values s) (0 < i)
                = Returned (logits # present)"
        and tok: "get_next_token logits = Returned tok"
        and br: "if tok = end_token then ctl = Break \<and> s1 = s\<lparr>cur_tokens := [tok]\<rparr>
          else ctl = Continue \<and>
            (\<exists>cache. update_kv_cache (past_key_values s) present (0 < i) = Returned cache
               \<and> s1 = s\<lparr>cur_tokens := [tok], result_tokens := result_tokens s @ [tok],
                         past_key_values := cache\<rparr>)"
        by blast
      show ?thesis
      proof (cases "tok = end_token")
        case True
        with br have "ctl = Break" "result_tokens s1 = result_tokens s" by simp_all
        moreover from this \<open>i < mx\<close> it "1.prems" have "s' = s1" by simp
        ultimately show ?thesis by simp
      next
        case False
        with br have c: "ctl = Continue"
          and r1: "result_tokens s1 = result_tokens s @ [tok]" by auto
        from c \<open>i < mx\<close> it "1.prems" have "decode_loop m h mx (Suc i) s1 = Returned s'"
          by simp
        from "1.IH"[OF \<open>i < mx\<close> Returned p[symmetric] c this]
        obtain new where n: "result_tokens s' = result_tokens s1 @ new"
          "length new \<le> mx - Suc i" "end_token \<notin> set new"
          "\<forall>tok \<in> set new. \<exists>ins lg rest.
              decoder_run (sessions m) ins = Returned (lg # rest)
              \<and> get_next_token lg = Returned tok"
          by blast
        have sel: "\<exists>ins lg rest. decoder_run (sessions m) ins = Returned (lg # rest)
              \<and> get_next_token lg = Returned tok"
          using run tok unfolding decode_next_token_def by blast
        have "result_tokens s' = result_tokens s @ (tok # new)"
          using n(1) r1 by simp
        moreover have "length (tok # new) \<le> mx - i" using n(2) \<open>i < mx\<close> by simp
        moreover have "end_token \<notin> set (tok # new)" using n(3) False by simp
        moreover have "\<forall>t \<in> set (tok # new). \<exists>ins lg rest.
              decoder_run (sessions m) ins = Returned (lg # rest)
              \<and> get_next_token lg = Returned t"
          using n(4) sel by simp
        ultimately show ?thesis by blast
      qed
    next
      case (Thrown e) with True "1.prems" show ?thesis by simp
    next
      case Terminated with True "1.prems" show ?thesis by simp
    next
      case Undefined with True "1.prems" show ?thesis by simp
    qed
  qed
qed

subsection \<open>The run and the transcriber\<close>

lemma run_fst: "fst (run m a) = noexcept (fst (run_body m a))"
  by (simp add: run_def split_beta)

lemma run_snd: "snd (run m a) = snd (encoder_run (sessions m) \<lparr>tshape = [1, int (length a)], tdata = a\<rparr>)"
  by (simp add: run_def run_body_def encode_def split_beta Let_def)

lemma returned_transcribe_body:
  "returned (transcribe_body t a) =
     (case fst (run (model t) a) of
        Returned tokens \<Rightarrow> if tokens = [] then Returned '''' else tokenizer t tokens
      | Thrown e \<Rightarrow> Thrown e
      | Terminated \<Rightarrow> Terminated
      | Undefined \<Rightarrow> Undefined)"
  by (simp add: transcribe_body_def split_beta split: outcome.splits)

lemma tokenizer_calls_transcribe_body:
  "tokenizer_calls (transcribe_body t a) =
     (case fst (run (model t) a) of
        Returned tokens \<Rightarrow> if tokens = [] then [] else [tokens]
      | Thrown e \<Rightarrow> []
      | Terminated \<Rightarrow> []
      | Undefined \<Rightarrow> [])"
  by (simp add: transcribe_body_def split_beta split: outcome.splits)

lemma audio_after_transcribe_body:
  "audio_after (transcribe_body t a) = snd (run (model t) a)"
  by (simp add: transcribe_body_def split_beta split: outcome.splits)

lemma returned_transcribe: "returned (transcribe t a) = noexcept (returned (transcribe_body t a))"
  by (simp add: transcribe_def Let_def)

lemma tokenizer_calls_transcribe: "tokenizer_calls (transcribe t a) = tokenizer_calls (transcribe_body t a)"
  by (simp add: transcribe_def Let_def)

lemma audio_after_transcribe: "audio_after (transcribe t a) = audio_after (transcribe_body t a)"
  by (simp add: transcribe_def Let_def)

lemma first_step_end_token:
  assumes "fst (encode m audio) = Returned (h # others)"
    and "decode_next_token m [start_token] h (initialize_past_key_values m) False
           = Returned (logits # present)"
    and "get_next_token logits = Returned end_token"
  shows "fst (run m audio) = Returned []"
proof -
  have "decode_iter m h 0 (decode_init m)
          = Returned (Break, (decode_init m)\<lparr>cur_tokens := [end_token]\<rparr>)"
    using assms(2,3) by (simp add: decode_iter_def decode_init_def)
  then have "decode_loop m h (max k min_token_count) 0 (decode_init m)
          = Returned ((decode_init m)\<lparr>cur_tokens := [end_token]\<rparr>)" for k
    by (simp add: min_token_count_def)
  then have "decode m h k = Returned []" for k
    by (simp add: decode_def decode_init_def)
  with assms(1) show ?thesis
    by (simp add: run_fst run_body_def split_beta Let_def)
qed

subsection \<open>Letter case\<close>

lemma char_of_nat_eq_iff:
  "char_of (n::nat) = c \<longleftrightarrow> n mod 256 = of_char c"
  by (simp add: char_of_eq_iff take_bit_eq_mod)

lemma eq_char_of_nat_iff:
  "c = char_of (n::nat) \<longleftrightarrow> n mod 256 = of_char c"
  using char_of_nat_eq_iff[of n c] by blast

lemma tolower_eq_lower_iff:
  assumes "is_lower d"
  shows "tolower c = d \<longleftrightarrow> c = d \<or> c = uppercase d"
proof -
  let ?n = "of_char c :: nat" and ?k = "of_char d :: nat"
  have n: "?n < 256" by simp
  from assms have k: "97 \<le> ?k" "?k \<le> 122" by (simp_all add: is_lower_def)
  have up: "uppercase d = char_of (?k - 32)" using k by (simp add: uppercase_def)
  have upn: "(of_char (uppercase d) :: nat) = ?k - 32"
    using k by (simp add: up)
  show ?thesis
  proof (cases "65 \<le> ?n \<and> ?n \<le> 90")
    case True
    then have tl: "tolower c = char_of (?n + 32)" by (simp add: tolower_def)
    have "c \<noteq> d" using True k by auto
    moreover have "char_of (?n + 32) = d \<longleftrightarrow> c = uppercase d"
    proof
      assume "char_of (?n + 32) = d"
      then have "(of_char (char_of (?n + 32) :: char) :: nat) = ?k" by simp
      with True have "?n + 32 = ?k" by simp
      then have "?n = (of_char (uppercase d) :: nat)" using upn by simp
      then show "c = uppercase d" by simp
    next
      assume "c = uppercase d"
      then have "?n = ?k - 32" using upn by simp
      with k have "?n + 32 = ?k" by simp
      then show "char_of (?n + 32) = d" by simp
    qed
    ultimately show ?thesis using tl by simp
  next
    case False
    then have tl: "tolower c = c" by (auto simp: tolower_def)
    have "c \<noteq> uppercase d"
    proof
      assume "c = uppercase d"
      then have "?n = ?k - 32" using upn by simp
      with k False show False by auto
    qed
    with tl show ?thesis by simp
  qed
qed

lemma map_tolower_eq_iff:
  "\<forall>d \<in> set w. is_lower d \<Longrightarrow> map tolower s = w \<longleftrightarrow> casing_of s w"
proof (induction s arbitrary: w)
  case Nil
  then show ?case by (auto simp: casing_of_def)
next
  case (Cons c s)
  show ?case
  proof (cases w)
    case Nil
    then show ?thesis by (simp add: casing_of_def)
  next
    case (Cons d w')
    with Cons.prems have "is_lower d" "\<forall>d \<in> set w'. is_lower d" by simp_all
    with Cons.IH[of w'] Cons show ?thesis
      by (simp add: casing_of_def tolower_eq_lower_iff)
  qed
qed

lemma lower_base: "\<forall>d \<in> set ''base''. is_lower d"
  by (simp add: is_lower_def)

lemma lower_tiny: "\<forall>d \<in> set ''tiny''. is_lower d"
  by (simp add: is_lower_def)

lemma from_string_casing:
  "from_string s =
     (if casing_of s ''base'' then Some Base
      else if casing_of s ''tiny'' then Some Tiny else None)"
  unfolding from_string_def Let_def
  by (simp only: map_tolower_eq_iff[OF lower_base] map_tolower_eq_iff[OF lower_tiny])

subsection \<open>The example sessions, evaluated\<close>

lemma get_next_token_logits_choosing:
  "get_next_token (logits_choosing 1) = Returned 1"
  "get_next_token (logits_choosing (Suc 0)) = Returned 1"
  "get_next_token (logits_choosing 2) = Returned 2"
  "get_next_token (logits_choosing 3) = Returned 3"
  by (simp_all add: get_next_token_def logits_choosing_def max_element_def to_int32_def)

lemma tiny_fields:
  "num_layers (OnnxModel_Tiny eng) = 6" "num_kv_heads (OnnxModel_Tiny eng) = 8"
  "head_dim (OnnxModel_Tiny eng) = 36" "sessions (OnnxModel_Tiny eng) = eng"
  by (simp_all add: OnnxModel_Tiny_def OnnxModel_def)

lemma init_demo_names:
  "decoder_input_names eng = demo_names \<Longrightarrow>
   initialize_past_key_values (OnnxModel_Tiny eng)
     = [\<lparr>tshape = [0, 8, 1, 36], tdata = []\<rparr>, \<lparr>tshape = [0, 8, 1, 36], tdata = []\<rparr>]"
  by (simp add: initialize_past_key_values_def demo_names_def tiny_fields)

lemma demo_present_kv_shape: "tshape demo_present_kv = [1, 8, 1, 36]"
  by (simp add: demo_present_kv_def)

lemma one_word_step0:
  "decode_iter (OnnxModel_Tiny one_word_engine) demo_hidden 0
     (decode_init (OnnxModel_Tiny one_word_engine))
   = Returned (Continue, one_word_after_first)"
  by (simp add: one_word_after_first_def Let_def decode_iter_def decode_init_def decode_next_token_def tiny_fields
      init_demo_names one_word_engine_def first_input_ids_def get_next_token_logits_choosing
      end_token_def start_token_def demo_present_kv_shape)

lemma one_word_step1:
  "decode_iter (OnnxModel_Tiny one_word_engine) demo_hidden (Suc 0)
     one_word_after_first
   = Returned (Break, one_word_final)"
  by (simp add: one_word_after_first_def one_word_final_def Let_def decode_iter_def
      decode_next_token_def tiny_fields
      one_word_engine_def first_input_ids_def get_next_token_logits_choosing
      end_token_def start_token_def)

lemma one_word_decode:
  "1 < k \<Longrightarrow> decode (OnnxModel_Tiny one_word_engine) demo_hidden k = Returned [3]"
  by (simp add: Let_def decode_def min_token_count_def one_word_step0 one_word_step1
      one_word_final_def)

lemma one_word_decode_1:
  "k \<le> 1 \<Longrightarrow> decode (OnnxModel_Tiny one_word_engine) demo_hidden k = Returned [3]"
  by (simp add: Let_def decode_def min_token_count_def one_word_step0 max_def
      one_word_after_first_def)

lemma demo_audio_max_len: "compute_max_len (length demo_audio) = 0"
  by (simp add: demo_audio_def compute_max_len_exact round_def)

lemma run_body_one_word:
  "run_body (OnnxModel_Tiny one_word_engine) demo_audio = (Returned [3], demo_audio)"
  by (simp add: Let_def run_body_def demo_audio_max_len encode_def tiny_fields one_word_engine_def
      demo_encoder_run_def one_word_decode_1[unfolded one_word_engine_def])

lemma max_element_scan_zeros_one:
  "max_element_scan (replicate n (Finite 0) @ [Finite 1]) i (Finite 0) bi = i + n"
  by (induction n arbitrary: i) simp_all

lemma long_logits_token: "get_next_token long_logits = Returned (- 2147483648)"
proof -
  have l: "length (tdata long_logits) = 2147483649" by (simp add: long_logits_def)
  have m: "max_element (tdata long_logits) = 2147483648"
    by (simp add: long_logits_def max_element_def max_element_scan_zeros_one)
  have t: "take (nat 2147483649) (tdata long_logits) = tdata long_logits"
    using l by simp
  have s: "tshape long_logits = [1, 1, 2147483649]" by (simp add: long_logits_def)
  show ?thesis
    by (simp add: get_next_token_def Let_def s l t m to_int32_def)
qed

lemma run_body_bad_shape:
  "fst (run_body (model (Transcriber Tiny bad_shape_engine tok)) demo_audio)
     = Thrown (RuntimeError ''Unexpected logits shape'')"
proof -
  have "get_next_token misshaped_logits = Thrown (RuntimeError ''Unexpected logits shape'')"
    by (simp add: get_next_token_def misshaped_logits_def)
  then have "decode_iter (OnnxModel_Tiny bad_shape_engine) demo_hidden 0
       (decode_init (OnnxModel_Tiny bad_shape_engine))
     = Thrown (RuntimeError ''Unexpected logits shape'')"
    by (simp add: decode_iter_def decode_next_token_def tiny_fields bad_shape_engine_def)
  then have "decode (OnnxModel_Tiny bad_shape_engine) demo_hidden k
     = Thrown (RuntimeError ''Unexpected logits shape'')" for k
    by (simp add: decode_def min_token_count_def Let_def)
  then show ?thesis
    by (simp add: Transcriber_def run_body_def encode_def tiny_fields Let_def
        bad_shape_engine_def demo_encoder_run_def)
qed

lemma one_word_loop:
  "decode_loop (OnnxModel_Tiny one_word_engine) demo_hidden 5 0
     (decode_init (OnnxModel_Tiny one_word_engine)) = Returned one_word_final"
  by (simp add: one_word_step0 one_word_step1)

lemma never_chooses_start_token:
  "decoder_run one_word_engine ins = Returned (lg # rest) \<Longrightarrow>
     get_next_token lg \<noteq> Returned start_token"
  by (auto simp: one_word_engine_def get_next_token_logits_choosing start_token_def
      split: if_splits)

lemma start_echo_step:
  "decode_iter (OnnxModel_Tiny start_echo_engine) demo_hidden i
     \<lparr>cur_tokens = cur, past_key_values = pkv, result_tokens = res\<rparr>
   = obind (update_kv_cache pkv [demo_present_kv, demo_present_kv] (0 < i))
       (\<lambda>cache. Returned (Continue,
          \<lparr>cur_tokens = [1], past_key_values = cache, result_tokens = res @ [1]\<rparr>))"
  by (simp add: Let_def decode_iter_def decode_next_token_def tiny_fields
      start_echo_engine_def get_next_token_logits_choosing end_token_def)

lemma start_echo_decode:
  "decode (OnnxModel_Tiny start_echo_engine) demo_hidden 3 = Returned [1, 1, 1]"
  by (simp add: Let_def decode_def min_token_count_def decode_init_def start_token_def
      init_demo_names start_echo_engine_def[THEN arg_cong, of decoder_input_names]
      start_echo_step demo_present_kv_shape numeral_3_eq_3)

lemma six_layer_count:
  "length (initialize_past_key_values (OnnxModel_Tiny six_layer_engine)) = 24"
  by (simp add: initialize_past_key_values_def six_layer_engine_def six_layer_input_names_def
      tiny_fields)

lemma silent_first_step:
  "decode_next_token (OnnxModel_Tiny silent_engine) [start_token] demo_hidden
     (initialize_past_key_values (OnnxModel_Tiny silent_engine)) False
   = Returned (logits_choosing 2 # [demo_present_kv, demo_present_kv])"
  by (simp add: decode_next_token_def tiny_fields silent_engine_def)

lemma run_Returned_decode:
  assumes "fst (run m audio) = Returned toks"
  shows "\<exists>h. decode m h (compute_max_len (length audio)) = Returned toks"
proof -
  from assms have r: "fst (run_body m audio) = Returned toks"
    by (cases "fst (run_body m audio)") (simp_all add: run_fst)
  then obtain outs where "fst (encode m audio) = Returned outs"
    and d: "(case outs of [] \<Rightarrow> Thrown OutOfRange
             | h # others \<Rightarrow> decode m h (compute_max_len (length audio))) = Returned toks"
    by (auto simp: run_body_def Let_def split_beta obind_Returned_iff)
  from d show ?thesis by (cases outs) auto
qed

lemma run_one_word:
  "fst (run (OnnxModel_Tiny one_word_engine) demo_audio) = Returned [3]"
  by (simp add: run_fst run_body_one_word)

section \<open>The claims\<close>

subsection \<open>C1: failures inside \<open>transcribe\<close>\<close>

text \<open>
  Claim C1, as amended. For every audio input, \<^verbatim>\<open>Transcriber::transcribe\<close> never lets an
  exception pass the facade boundary. A failure inside the call is not caught and turned
  into the empty string, though: when the run throws (a logits shape-contract violation
  during decoding, for one), or when the tokenizer's decode throws on a non-empty token
  sequence, the \<^verbatim>\<open>noexcept\<close> boundary ends the process with \<^verbatim>\<open>std::terminate\<close>.
\<close>

theorem transcribe_failure_terminates:
  "(\<forall>e. returned (transcribe t audio) \<noteq> Thrown e)
   \<and> (fst (run_body (model t) audio) = Thrown e' \<longrightarrow>
        returned (transcribe t audio) = Terminated)
   \<and> (fst (run_body (model t) audio) = Returned toks \<and> toks \<noteq> []
        \<and> tokenizer t toks = Thrown e'' \<longrightarrow>
        returned (transcribe t audio) = Terminated)"
  by (simp add: returned_transcribe returned_transcribe_body run_fst noexcept_not_Thrown)

text \<open>The claim as it was stated fails on a decoder whose logits have the shape
  \<open>[1, 2, 4]\<close>: \<^verbatim>\<open>get_next_token\<close> throws, and the call does not return the empty
  string.\<close>

theorem transcribe_failure_not_empty_string:
  "fst (run_body (model (Transcriber Tiny bad_shape_engine demo_tokenizer)) demo_audio)
     = Thrown (RuntimeError ''Unexpected logits shape'')
   \<and> returned (transcribe (Transcriber Tiny bad_shape_engine demo_tokenizer) demo_audio)
     \<noteq> Returned ''''"
proof -
  have "fst (run_body (model (Transcriber Tiny bad_shape_engine demo_tokenizer)) demo_audio)
     = Thrown (RuntimeError ''Unexpected logits shape'')"
    by (rule run_body_bad_shape)
  then show ?thesis
    by (simp add: returned_transcribe returned_transcribe_body run_fst)
qed

theorem transcribe_failure_terminates_witness:
  "returned (transcribe (Transcriber Tiny bad_shape_engine demo_tokenizer) demo_audio)
     = Terminated
   \<and> returned (transcribe (Transcriber Tiny one_word_engine failing_tokenizer) demo_audio)
     = Terminated"
  using
    transcribe_failure_terminates
      [where t = "Transcriber Tiny bad_shape_engine demo_tokenizer" and audio = demo_audio
         and e' = "RuntimeError ''Unexpected logits shape''"]
    transcribe_failure_terminates
      [where t = "Transcriber Tiny one_word_engine failing_tokenizer" and audio = demo_audio
         and toks = "[3]" and e'' = "TokenizerError ''cannot decode''"]
    run_body_bad_shape [of demo_tokenizer]
  by (simp add: Transcriber_def run_body_one_word failing_tokenizer_def)

subsection \<open>C2: the replacement policy of \<open>update_kv_cache\<close>\<close>

text \<open>
  Claim C2. For cache and new-value lists of equal length and either value of
  \<open>use_cache_branch\<close>, \<^verbatim>\<open>update_kv_cache\<close> puts new value \<open>i\<close> in place of entry \<open>i\<close>
  exactly when the entry's first dimension is 0, or the new value's third dimension is
  greater than 1, or \<open>use_cache_branch\<close> is false; otherwise entry \<open>i\<close> stays as it
  was. (The dimensions the policy reads exist: every cached shape has a first dimension,
  every new shape a third.)
\<close>

theorem update_kv_cache_policy:
  assumes "length cache = length new_values"
    and "\<forall>c \<in> set cache. 1 \<le> length (tshape c)"
    and "\<forall>n \<in> set new_values. 3 \<le> length (tshape n)"
  shows "\<exists>cache'. update_kv_cache cache new_values use_cache_branch = Returned cache'
           \<and> length cache' = length cache
           \<and> (\<forall>i < length cache.
                 cache' ! i =
                   (if tshape (cache ! i) ! 0 = 0 \<or> 1 < tshape (new_values ! i) ! 2
                       \<or> \<not> use_cache_branch
                    then new_values ! i else cache ! i))"
  using assms by (simp add: update_kv_cache_zip)

theorem update_kv_cache_policy_witness:
  "update_kv_cache [demo_empty_kv, demo_cached_kv] [demo_present_kv, demo_present_kv] True
     = Returned [demo_present_kv, demo_cached_kv]"
  using update_kv_cache_policy
    [of "[demo_empty_kv, demo_cached_kv]" "[demo_present_kv, demo_present_kv]" True]
  by (simp add: demo_empty_kv_def demo_cached_kv_def demo_present_kv_def Let_def)

subsection \<open>C3: the token budget\<close>

text \<open>
  Claim C3. The token budget is at least 1 for every sample count \<open>n\<close>, it is 1 for
  \<open>n = 0\<close>, and it is \<open>round((n / 16000) * 6)\<close> raised to at least 1: for every
  \<open>n\<close> with the division and the product rounded to \<^verbatim>\<open>double\<close> as the code
  computes them, and for every \<open>n\<close> below \<open>2\<^sup>5\<^sup>0\<close> samples with the exact value of
  the formula as well. The budget is a function of \<open>n\<close> alone, with no error outcome.
\<close>

theorem token_budget_formula:
  "1 \<le> token_budget n
   \<and> token_budget 0 = 1
   \<and> token_budget n
       = max 1 (size_t_of_double (std_round (dmul (ddiv (double_of_size_t n) 16000) 6)))
   \<and> (n < 2 ^ 50 \<longrightarrow> token_budget n = token_budget_spec n)"
proof -
  have "compute_max_len 0 = nat (round (real 0 / 16000 * 6))"
    by (rule compute_max_len_exact) simp
  then have "token_budget 0 = 1" by (simp add: token_budget_def min_token_count_def)
  moreover have "token_budget n = token_budget_spec n" if "n < 2 ^ 50"
    using compute_max_len_exact[OF that]
    by (simp add: token_budget_def token_budget_spec_def min_token_count_def max.commute)
  moreover have "token_budget n
       = max 1 (size_t_of_double (std_round (dmul (ddiv (double_of_size_t n) 16000) 6)))"
    by (simp add: token_budget_def compute_max_len_def double_consts min_token_count_def
        max.commute Let_def)
  ultimately show ?thesis using token_budget_ge_1 by blast
qed

theorem token_budget_formula_witness:
  "token_budget 16000 = 6 \<and> token_budget 4000 = 2 \<and> token_budget 1333 = 1"
  using token_budget_formula [of 16000] token_budget_formula [of 4000]
    token_budget_formula [of 1333]
  by (simp add: token_budget_spec_def round_def)

subsection \<open>C4: greedy token selection\<close>

text \<open>
  Claim C4, as amended. On a logits tensor of shape \<open>[1, 1, V]\<close> with at least one and
  at most \<open>2\<^sup>3\<^sup>1\<close> logits, none of them NaN, \<^verbatim>\<open>get_next_token\<close> returns the smallest
  index at which the largest logit stands: no logit is greater than the one at the
  returned index, and every logit before it is smaller. On a tensor whose shape is not
  three-dimensional with first and second dimension 1 it throws the shape-contract error.
\<close>

theorem get_next_token_first_max:
  "(tshape logits = [1, 1, V] \<and> 0 < V \<and> V \<le> 2 ^ 31 \<and> length (tdata logits) = nat V
      \<and> (\<forall>x \<in> set (tdata logits). \<not> is_nan x)
    \<longrightarrow> (\<exists>k < nat V. get_next_token logits = Returned (int k)
           \<and> (\<forall>j < nat V. fle (tdata logits ! j) (tdata logits ! k))
           \<and> (\<forall>j < k. flt (tdata logits ! j) (tdata logits ! k))))
   \<and> (\<not> (length (tshape logits) = 3 \<and> tshape logits ! 0 = 1 \<and> tshape logits ! 1 = 1)
    \<longrightarrow> get_next_token logits = Thrown (RuntimeError ''Unexpected logits shape''))"
proof (intro conjI impI)
  assume h: "tshape logits = [1, 1, V] \<and> 0 < V \<and> V \<le> 2 ^ 31 \<and> length (tdata logits) = nat V
      \<and> (\<forall>x \<in> set (tdata logits). \<not> is_nan x)"
  let ?ys = "tdata logits"
  let ?k = "max_element ?ys"
  from h have ne: "?ys \<noteq> []" by auto
  from max_element_first_max[OF ne] h have
    k: "?k < length ?ys" "\<forall>j < length ?ys. fle (?ys ! j) (?ys ! ?k)"
       "\<forall>j < ?k. flt (?ys ! j) (?ys ! ?k)"
    by blast+
  from k(1) h have "int ?k < 2 ^ 31" by linarith
  then have "to_int32 (int ?k) = int ?k" by (simp add: to_int32_id)
  with h have "get_next_token logits = Returned (int ?k)"
    by (simp add: get_next_token_def Let_def)
  with k h show "\<exists>k < nat V. get_next_token logits = Returned (int k)
           \<and> (\<forall>j < nat V. fle (tdata logits ! j) (tdata logits ! k))
           \<and> (\<forall>j < k. flt (tdata logits ! j) (tdata logits ! k))"
    by auto
next
  assume "\<not> (length (tshape logits) = 3 \<and> tshape logits ! 0 = 1 \<and> tshape logits ! 1 = 1)"
  then show "get_next_token logits = Thrown (RuntimeError ''Unexpected logits shape'')"
    by (auto simp: get_next_token_def Let_def)
qed

text \<open>The claim as it was stated, for every tensor of shape \<open>[1, 1, V]\<close>, fails in two
  ways. \<^verbatim>\<open>std::max_element\<close> compares with \<^verbatim>\<open>operator<\<close>, which is false on NaN: on
  the logits NaN, 5, 7 the scan never leaves index 0, though the largest logit stands at
  index 2. And the index is returned as a 32-bit \<^verbatim>\<open>int\<close>: when the only maximum stands
  at index \<open>2\<^sup>3\<^sup>1\<close>, the value returned is \<open>- 2\<^sup>3\<^sup>1\<close>.\<close>

theorem get_next_token_not_first_max:
  "get_next_token nan_first_logits = Returned 0
   \<and> tdata nan_first_logits ! 0 = NaN
   \<and> tdata nan_first_logits ! 2 = Finite 7
   \<and> flt (tdata nan_first_logits ! 1) (tdata nan_first_logits ! 2)
   \<and> get_next_token long_logits = Returned (- 2147483648)"
  by (simp add: long_logits_token)
     (simp add: nan_first_logits_def get_next_token_def max_element_def to_int32_def)

theorem get_next_token_first_max_witness:
  "get_next_token tied_logits = Returned 1
   \<and> get_next_token misshaped_logits = Thrown (RuntimeError ''Unexpected logits shape'')"
  using get_next_token_first_max [of tied_logits 4]
    get_next_token_first_max [of misshaped_logits 4]
  by (simp add: tied_logits_def misshaped_logits_def get_next_token_def max_element_def
      to_int32_def is_nan_def)

subsection \<open>C5: the tokens that \<open>decode\<close> returns\<close>

text \<open>
  Claim C5, as amended. The token sequence that a decode run returns is no longer than the
  token budget (for a whole run, the budget of the audio's sample count) and never
  contains the end-token value 2. The start token is not put into
  the result by the loop itself: every token of the result was chosen by
  \<^verbatim>\<open>get_next_token\<close>, so the value 1 appears only where the decoder's logits have their
  first maximum at index 1, and never when the decoder does not choose it.
\<close>

theorem decode_result_tokens:
  "(decode m h max_len = Returned toks \<longrightarrow>
      length toks \<le> max max_len min_token_count
      \<and> end_token \<notin> set toks
      \<and> ((\<forall>ins lg rest. decoder_run (sessions m) ins = Returned (lg # rest)
              \<longrightarrow> get_next_token lg \<noteq> Returned start_token)
           \<longrightarrow> start_token \<notin> set toks))
   \<and> (fst (run m audio) = Returned toks' \<longrightarrow>
      length toks' \<le> token_budget (length audio) \<and> end_token \<notin> set toks')"
proof -
  have a: "length ts \<le> max k min_token_count \<and> end_token \<notin> set ts
      \<and> (\<forall>tok \<in> set ts. \<exists>ins lg rest.
            decoder_run (sessions m) ins = Returned (lg # rest)
            \<and> get_next_token lg = Returned tok)"
    if "decode m h' k = Returned ts" for h' k ts
  proof -
    from that obtain s' where
      l: "decode_loop m h' (max k min_token_count) 0 (decode_init m) = Returned s'"
      and t: "ts = result_tokens s'"
      unfolding decode_def Let_def obind_Returned_iff by auto
    from decode_loop_tokens[OF l] t show ?thesis
      by (auto simp: decode_init_def)
  qed
  have b: "length toks' \<le> token_budget (length audio) \<and> end_token \<notin> set toks'"
    if "fst (run m audio) = Returned toks'"
  proof -
    from run_Returned_decode[OF that] obtain h' where
      "decode m h' (compute_max_len (length audio)) = Returned toks'" ..
    from a[OF this] show ?thesis by (simp add: token_budget_def)
  qed
  from a[of h max_len toks] b show ?thesis by blast
qed

text \<open>The claim as it was stated fails on a decoder whose logits always have their maximum
  at index 1: with a budget of three tokens the result is the value 1 three times.\<close>

theorem decode_emits_start_token_value:
  "decode (OnnxModel_Tiny start_echo_engine) demo_hidden 3
     = Returned [start_token, start_token, start_token]"
  by (simp add: start_echo_decode start_token_def)

theorem decode_result_tokens_witness:
  "decode (OnnxModel_Tiny one_word_engine) demo_hidden 5 = Returned [3]
   \<and> length [3 :: int] \<le> max 5 min_token_count
   \<and> end_token \<notin> set [3]
   \<and> start_token \<notin> set [3]
   \<and> fst (run (OnnxModel_Tiny one_word_engine) demo_audio) = Returned [3]
   \<and> length [3 :: int] \<le> token_budget (length demo_audio)"
proof -
  have d: "decode (OnnxModel_Tiny one_word_engine) demo_hidden 5 = Returned [3]"
    by (rule one_word_decode) simp
  have n: "\<forall>ins lg rest.
      decoder_run (sessions (OnnxModel_Tiny one_word_engine)) ins = Returned (lg # rest)
        \<longrightarrow> get_next_token lg \<noteq> Returned start_token"
    by (simp add: tiny_fields never_chooses_start_token)
  from decode_result_tokens
    [of "OnnxModel_Tiny one_word_engine" demo_hidden 5 "[3]" demo_audio "[3]"]
    n d run_one_word
  show ?thesis by blast
qed

subsection \<open>C6: the number of cache entries\<close>

text \<open>
  Claim C6, as amended. Throughout every decode run the KV-cache store has exactly as many
  entries as the decoder declares input names that contain \<open>past_key_values\<close>:
  \<^verbatim>\<open>initialize_past_key_values\<close> makes one entry for each such name (it does not consult
  \<open>num_layers\<close>), and every call of \<^verbatim>\<open>update_kv_cache\<close>, every pass through the loop
  body and the whole loop leave the number of entries as it was.
\<close>

theorem kv_cache_entry_count:
  "length (initialize_past_key_values m)
     = length (filter (\<lambda>key. string_find key ''past_key_values'' \<noteq> None)
         (decoder_input_names (sessions m)))
   \<and> (update_kv_cache cache new_values u = Returned cache' \<longrightarrow>
        length cache' = length cache)
   \<and> (decode_iter m h i s = Returned (ctl, s') \<longrightarrow>
        length (past_key_values s') = length (past_key_values s))
   \<and> (decode_loop m h k 0 (decode_init m) = Returned s'' \<longrightarrow>
        length (past_key_values s'') = length (initialize_past_key_values m))"
proof -
  have "decode_loop m h k 0 (decode_init m) = Returned s'' \<Longrightarrow>
        length (past_key_values s'') = length (initialize_past_key_values m)"
    by (drule decode_loop_cache_length) (simp add: decode_init_def)
  then show ?thesis
    by (auto simp: initialize_past_key_values_def initialize_loop_length
        dest: update_kv_cache_length decode_iter_cache_length)
qed

text \<open>The claim as it was stated fails on the Tiny model (6 layers) over a decoder graph
  with four cache inputs for each layer: the store has 24 entries.\<close>

theorem kv_cache_count_not_num_layers:
  "num_layers (OnnxModel_Tiny six_layer_engine) = 6
   \<and> length (initialize_past_key_values (OnnxModel_Tiny six_layer_engine)) = 24"
  by (simp add: six_layer_count tiny_fields)

theorem kv_cache_entry_count_witness:
  "length (initialize_past_key_values (OnnxModel_Tiny one_word_engine)) = 2
   \<and> update_kv_cache [demo_empty_kv, demo_empty_kv] [demo_present_kv, demo_present_kv] False
       = Returned [demo_present_kv, demo_present_kv]
   \<and> length (past_key_values one_word_after_first) = 2
   \<and> length (past_key_values one_word_final) = 2"
  using kv_cache_entry_count
    [where m = "OnnxModel_Tiny one_word_engine" and h = demo_hidden and i = 0
       and s = "decode_init (OnnxModel_Tiny one_word_engine)" and ctl = Continue
       and s' = one_word_after_first and k = 5 and s'' = one_word_final
       and cache = "[demo_empty_kv, demo_empty_kv]"
       and new_values = "[demo_present_kv, demo_present_kv]" and u = False
       and cache' = "[demo_present_kv, demo_present_kv]"]
  by (simp add: one_word_step0 one_word_loop tiny_fields one_word_engine_def demo_names_def
      demo_empty_kv_def demo_present_kv_shape Let_def one_word_after_first_def
      one_word_final_def)

subsection \<open>C7: an empty token sequence bypasses the tokenizer\<close>

text \<open>
  Claim C7. Whenever the decode loop returns an empty token sequence, and so whenever the
  very first decode step yields the end token, \<^verbatim>\<open>transcribe\<close> returns the empty string
  and \<^verbatim>\<open>tokenizer->Decode\<close> is not called.
\<close>

theorem transcribe_empty_skips_tokenizer:
  "(fst (run (model t) audio) = Returned [] \<longrightarrow>
      returned (transcribe t audio) = Returned '''' \<and> tokenizer_calls (transcribe t audio) = [])
   \<and> (fst (encode (model t) audio) = Returned (h # others)
      \<and> decode_next_token (model t) [start_token] h (initialize_past_key_values (model t)) False
            = Returned (logits # present)
      \<and> get_next_token logits = Returned end_token \<longrightarrow>
      fst (run (model t) audio) = Returned []
      \<and> returned (transcribe t audio) = Returned '''' \<and> tokenizer_calls (transcribe t audio) = [])"
proof -
  have a: "fst (run (model t) audio) = Returned [] \<Longrightarrow>
      returned (transcribe t audio) = Returned '''' \<and> tokenizer_calls (transcribe t audio) = []"
    by (simp add: returned_transcribe returned_transcribe_body tokenizer_calls_transcribe
        tokenizer_calls_transcribe_body)
  show ?thesis using a first_step_end_token by blast
qed

theorem transcribe_empty_skips_tokenizer_witness:
  "fst (run (model (Transcriber Tiny silent_engine demo_tokenizer)) demo_audio) = Returned []
   \<and> returned (transcribe (Transcriber Tiny silent_engine demo_tokenizer) demo_audio)
       = Returned ''''
   \<and> tokenizer_calls (transcribe (Transcriber Tiny silent_engine demo_tokenizer) demo_audio)
       = []"
  using transcribe_empty_skips_tokenizer
    [where t = "Transcriber Tiny silent_engine demo_tokenizer" and audio = demo_audio
       and h = demo_hidden and others = "[]" and logits = "logits_choosing 2"
       and present = "[demo_present_kv, demo_present_kv]"]
    silent_first_step
  by (simp add: Transcriber_def encode_def tiny_fields silent_engine_def demo_encoder_run_def
      get_next_token_logits_choosing end_token_def)

subsection \<open>C8: choosing the model family by name\<close>

text \<open>
  Claim C8. \<^verbatim>\<open>ModelType::from_string\<close> does not look at letter case: every casing of
  \<open>base\<close> gives \<open>Base\<close>, whose model is built with 8 layers, 8 kv-heads and head
  dimension 52; every casing of \<open>tiny\<close> gives \<open>Tiny\<close>, built with 6 layers, 8 kv-heads
  and head dimension 36; every other string gives no model type.
\<close>

theorem from_string_case_insensitive:
  "(casing_of s ''base'' \<longrightarrow>
      from_string s = Some Base
      \<and> num_layers (model (Transcriber Base eng tok)) = 8
      \<and> num_kv_heads (model (Transcriber Base eng tok)) = 8
      \<and> head_dim (model (Transcriber Base eng tok)) = 52)
   \<and> (casing_of s ''tiny'' \<longrightarrow>
      from_string s = Some Tiny
      \<and> num_layers (model (Transcriber Tiny eng tok)) = 6
      \<and> num_kv_heads (model (Transcriber Tiny eng tok)) = 8
      \<and> head_dim (model (Transcriber Tiny eng tok)) = 36)
   \<and> (\<not> casing_of s ''base'' \<and> \<not> casing_of s ''tiny'' \<longrightarrow> from_string s = None)"
proof -
  have "\<not> (casing_of s ''base'' \<and> casing_of s ''tiny'')"
    by (auto simp: casing_of_def list_all2_Cons2 uppercase_def char_of_nat_eq_iff
        eq_char_of_nat_iff)
  then show ?thesis
    by (auto simp: from_string_casing Transcriber_def OnnxModel_Base_def OnnxModel_Tiny_def
        OnnxModel_def)
qed

theorem from_string_case_insensitive_witness:
  "from_string ''TINY'' = Some Tiny
   \<and> num_layers (model (Transcriber Tiny one_word_engine demo_tokenizer)) = 6
   \<and> num_kv_heads (model (Transcriber Tiny one_word_engine demo_tokenizer)) = 8
   \<and> head_dim (model (Transcriber Tiny one_word_engine demo_tokenizer)) = 36
   \<and> from_string ''bAsE'' = Some Base
   \<and> num_layers (model (Transcriber Base one_word_engine demo_tokenizer)) = 8
   \<and> num_kv_heads (model (Transcriber Base one_word_engine demo_tokenizer)) = 8
   \<and> head_dim (model (Transcriber Base one_word_engine demo_tokenizer)) = 52
   \<and> from_string ''medium'' = None"
proof -
  have c: "casing_of ''TINY'' ''tiny''" "casing_of ''bAsE'' ''base''"
    "\<not> casing_of ''medium'' ''base''" "\<not> casing_of ''medium'' ''tiny''"
    by (simp_all add: casing_of_def uppercase_def char_of_nat_eq_iff eq_char_of_nat_iff)
  from from_string_case_insensitive [of "''TINY''" one_word_engine demo_tokenizer]
    from_string_case_insensitive [of "''bAsE''" one_word_engine demo_tokenizer]
    from_string_case_insensitive [of "''medium''" one_word_engine demo_tokenizer]
    c
  show ?thesis by blast
qed

subsection \<open>C9: the caller's sample buffer\<close>

text \<open>
  Claim C9. \<^verbatim>\<open>transcribe\<close> leaves the caller's sample buffer as it found it. The code
  hands the buffer to the encoder session through a mutable pointer and never writes to
  it itself; with an encoder session that reads its input and does not write it, the
  samples after the call are the samples before it, whatever the outcome of the call.
\<close>

theorem transcribe_preserves_audio:
  assumes "\<forall>x. snd (encoder_run (sessions (model t)) x) = tdata x"
  shows "audio_after (transcribe t audio) = audio"
  using assms
  by (simp add: audio_after_transcribe audio_after_transcribe_body run_snd)

theorem transcribe_preserves_audio_witness:
  "audio_after (transcribe (Transcriber Tiny one_word_engine demo_tokenizer) demo_audio)
     = demo_audio
   \<and> returned (transcribe (Transcriber Tiny one_word_engine demo_tokenizer) demo_audio)
     = Returned ''hello''"
proof -
  have "\<forall>x. snd (encoder_run
      (sessions (model (Transcriber Tiny one_word_engine demo_tokenizer))) x) = tdata x"
    by (simp add: Transcriber_def tiny_fields one_word_engine_def demo_encoder_run_def)
  from transcribe_preserves_audio[OF this, of demo_audio] show ?thesis
    by (simp add: returned_transcribe returned_transcribe_body run_fst Transcriber_def
        run_body_one_word demo_tokenizer_def)
qed

subsection \<open>C10: the call operator\<close>

text \<open>
  Claim C10. \<^verbatim>\<open>Transcriber::operator()\<close> gives exactly what \<^verbatim>\<open>transcribe\<close> gives on the
  same input: the same outcome, the same calls of the tokenizer, the same buffer.
\<close>

theorem call_operator_is_transcribe: "call_operator t audio = transcribe t audio"
proof -
  have "noexcept (returned (transcribe t audio)) = returned (transcribe t audio)"
    by (simp add: returned_transcribe noexcept_idem)
  then show ?thesis by (simp add: call_operator_def Let_def)
qed

end
